theory Spec2Isabelle
  imports Main "HOL-Library.AList"
begin

section \<open>The view registry of backbone.plumber.js\<close>

text \<open>
  The source defines one constructor, \<^verbatim>\<open>ViewController\<close>, whose instances keep three
  JavaScript objects used as dictionaries (\<^verbatim>\<open>_views\<close>, \<^verbatim>\<open>_indexByModel\<close>,
  \<^verbatim>\<open>_indexByCustom\<close>) and a \<^verbatim>\<open>length\<close> property, and it replaces
  \<^verbatim>\<open>Backbone.View.prototype.remove\<close>.

  Conventions of the embedding:
  \<^item> a leading underscore of a source name is written \<open>u_\<close> (\<^verbatim>\<open>_views\<close> is \<open>u_views\<close>);
    the property \<^verbatim>\<open>length\<close> is the field \<open>length'\<close>;
  \<^item> a dictionary object is the list of its own properties in enumeration order, which
    for names that are not array indices is the order of insertion. Assignment is
    \<open>AList.update\<close> (in place for a present key, at the end for a new one),
    \<^verbatim>\<open>delete\<close> is \<open>AList.delete\<close>, reading is \<open>map_of\<close>. Handles and keys are
    ordinary property names (Backbone's \<^verbatim>\<open>view12\<close>, \<^verbatim>\<open>c7\<close>), not names inherited
    from \<^verbatim>\<open>Object.prototype\<close>;
  \<^item> a value that may be missing is a \<open>jsval\<close>: \<^verbatim>\<open>undefined\<close>, \<^verbatim>\<open>null\<close> or a present
    value; reading a property of the first two raises \<^verbatim>\<open>TypeError\<close>;
  \<^item> a raise is the left summand of the result;
  \<^item> the calls the code makes into its collaborators (the view's hooks, jQuery, the
    template, the model's serialiser) are returned as a list of \<open>call\<close>s in the order
    in which they are made. What a collaborator returns to the code is a field of the
    object that owns it;
  \<^item> jQuery's \<^verbatim>\<open>$\<close> belongs to no object of the program and is not part of the
    repository: it is a parameter \<open>jq\<close> of the functions that call it. Given a string it
    returns a set of nodes, which may be empty, or raises.
\<close>

subsection \<open>Values\<close>

datatype 'a jsval = Undefined | Null | Obj 'a

datatype error = TypeError | Thrown string

datatype val = Num int | Str string | Arr "val list"

type_synonym html = string

text \<open>What \<^verbatim>\<open>$(...)\<close> returns: the nodes of a jQuery object, in order.\<close>

type_synonym dom = "html list"

type_synonym data = "(string \<times> val) list"

text \<open>
  A model: its \<^verbatim>\<open>cid\<close>, its \<^verbatim>\<open>attributes\<close> (\<open>None\<close> when the property is
  \<^verbatim>\<open>undefined\<close>) and what \<^verbatim>\<open>toJSON()\<close> returns.
\<close>

record model =
  mcid :: string
  attributes :: "data option"
  toJSON :: data

datatype collection = Collection "model list"

text \<open>What \<^verbatim>\<open>attach\<close> hands to the template: the snapshot or the model object itself.\<close>

datatype tdata = Snapshot data | ModelItself model

text \<open>
  A view: \<^verbatim>\<open>cid\<close>; \<^verbatim>\<open>model\<close> and \<^verbatim>\<open>collection\<close> (\<open>None\<close> when falsy);
  \<^verbatim>\<open>template\<close>; and the names \<open>n\<close> for which \<^verbatim>\<open>_.isFunction(view[n])\<close> holds.
\<close>

record view =
  cid :: string
  model :: "model option"
  collection :: "collection option"
  template :: "(tdata \<Rightarrow> html) jsval"
  members :: "string list"

datatype call =
    ToJSON model
  | Template view tdata
  | JQuery html
  | Html view dom
  | Render view
  | DomRemove string
  | Empty view
  | UndelegateEvents view
  | Invoke view string "val list"

record registry =
  u_views :: "(string \<times> view) list"
  u_indexByModel :: "(string \<times> string) list"
  u_indexByCustom :: "(string \<times> string) list"
  length' :: "nat option"

subsection \<open>JavaScript primitives\<close>

text \<open>Truthiness of a string-or-missing value: the empty string is falsy.\<close>

fun truthy :: "string jsval \<Rightarrow> bool" where
  "truthy (Obj s) = (s \<noteq> [])"
| "truthy Undefined = False"
| "truthy Null = False"

text \<open>Conversion of a value used as a property name.\<close>

fun to_key :: "string jsval \<Rightarrow> string" where
  "to_key (Obj s) = s"
| "to_key Undefined = ''undefined''"
| "to_key Null = ''null''"

text \<open>\<^verbatim>\<open>obj[k]\<close>: \<^verbatim>\<open>undefined\<close> for a name the object does not have.\<close>

definition get_prop :: "(string \<times> 'a) list \<Rightarrow> string \<Rightarrow> 'a jsval" where
  "get_prop obj k = (case map_of obj k of None \<Rightarrow> Undefined | Some x \<Rightarrow> Obj x)"

text \<open>
  \<^verbatim>\<open>_.any(obj, iterator, context)\<close>: calls the iterator on each value and key, in
  enumeration order, and stops at the first truthy answer. The iterator is given the
  state it may change.
\<close>

fun any' :: "('s \<Rightarrow> 'v \<Rightarrow> 'k \<Rightarrow> 's \<times> bool) \<Rightarrow> ('k \<times> 'v) list \<Rightarrow> 's \<Rightarrow> 's \<times> bool" where
  "any' f [] s = (s, False)"
| "any' f ((k, v) # kvs) s =
     (case f s v k of (s', b) \<Rightarrow> if b then (s', True) else any' f kvs s')"

text \<open>\<^verbatim>\<open>_.each(obj, iterator)\<close> for an iterator that only calls out: the calls, in order.\<close>

fun each' :: "('v \<Rightarrow> call list) \<Rightarrow> ('k \<times> 'v) list \<Rightarrow> call list" where
  "each' f [] = []"
| "each' f ((k, v) # kvs) = f v @ each' f kvs"

subsection \<open>The members of a registry instance\<close>

text \<open>
  The property names the object literal passed to \<^verbatim>\<open>_.extend\<close> puts on
  \<^verbatim>\<open>ViewController.prototype\<close>.
\<close>

definition prototype_members :: "string list" where
  "prototype_members =
     [''initialize'', ''storeView'', ''removeFromContainer'', ''removeView'', ''attach'',
      ''createView'', ''apply'', ''attachSingleView'', ''attachViews'', ''_getByModel'',
      ''_getByModelCid'', ''_getByCustom'', ''_getByIndex'', ''_getByCid'',
      ''_updateLength'', ''_configure'']"

text \<open>
  The names mixed in from \<^verbatim>\<open>Backbone.Events\<close>, which belongs to the host framework
  and is not part of the repository: taken from the framework's interface.
\<close>

definition events_members :: "string list" where
  "events_members =
     [''on'', ''once'', ''off'', ''trigger'', ''stopListening'', ''listenTo'',
      ''listenToOnce'', ''bind'', ''unbind'']"

text \<open>
  The own properties the constructor, \<^verbatim>\<open>_configure\<close> and \<^verbatim>\<open>_updateLength\<close> can
  put on an instance.
\<close>

definition instance_members :: "string list" where
  "instance_members =
     [''_views'', ''_indexByModel'', ''_indexByCustom'', ''options'', ''model'',
      ''collection'', ''views'', ''length'']"

text \<open>The names every object inherits from \<^verbatim>\<open>Object.prototype\<close>.\<close>

definition object_members :: "string list" where
  "object_members =
     [''constructor'', ''hasOwnProperty'', ''isPrototypeOf'', ''propertyIsEnumerable'',
      ''toLocaleString'', ''toString'', ''valueOf'']"

text \<open>Whether \<^verbatim>\<open>this[name]\<close> is defined on an instance of \<^verbatim>\<open>ViewController\<close>.\<close>

definition this_member :: "string \<Rightarrow> bool" where
  "this_member name \<longleftrightarrow>
     name \<in> set (instance_members @ prototype_members @ events_members @ object_members)"

subsection \<open>The overridden \<^verbatim>\<open>Backbone.View.prototype.remove\<close>\<close>

definition remove :: "view \<Rightarrow> string jsval \<Rightarrow> call list" where
  "remove this element =
     (if truthy element then [DomRemove (to_key element)] else [Empty this])
     @ [UndelegateEvents this]"

subsection \<open>The registry\<close>

text \<open>
  \<^verbatim>\<open>new ViewController(options)\<close>: three empty dictionaries; \<^verbatim>\<open>length\<close> is not
  assigned. The options and the \<^verbatim>\<open>initialize\<close> hook do not touch the dictionaries.
\<close>

definition ViewController :: registry where
  "ViewController =
     \<lparr>u_views = [], u_indexByModel = [], u_indexByCustom = [], length' = None\<rparr>"

definition u_updateLength :: "registry \<Rightarrow> registry" where
  "u_updateLength this = this\<lparr>length' := Some (length (u_views this))\<rparr>"

definition storeView :: "registry \<Rightarrow> view jsval \<Rightarrow> string jsval \<Rightarrow> error + registry" where
  "storeView this view customIndex =
     (case view of
        Obj v \<Rightarrow>
          let viewCid = cid v;
              s1 = this\<lparr>u_views := AList.update viewCid v (u_views this)\<rparr>;
              s2 = (case model v of
                      Some m \<Rightarrow>
                        s1\<lparr>u_indexByModel := AList.update (mcid m) viewCid (u_indexByModel s1)\<rparr>
                    | None \<Rightarrow> s1);
              s3 = (if truthy customIndex
                    then s2\<lparr>u_indexByCustom :=
                              AList.update (to_key customIndex) viewCid (u_indexByCustom s2)\<rparr>
                    else s2)
          in Inr (u_updateLength s3)
      | _ \<Rightarrow> Inl TypeError)"

text \<open>The iterator handed to \<^verbatim>\<open>_.any\<close> in \<^verbatim>\<open>removeFromContainer\<close>.\<close>

definition delete_custom :: "string \<Rightarrow> registry \<Rightarrow> string \<Rightarrow> string \<Rightarrow> registry \<times> bool" where
  "delete_custom viewCid this c key =
     (if c = viewCid
      then (this\<lparr>u_indexByCustom := AList.delete key (u_indexByCustom this)\<rparr>, True)
      else (this, False))"

definition removeFromContainer :: "registry \<Rightarrow> view jsval \<Rightarrow> error + registry" where
  "removeFromContainer this view =
     (case view of
        Obj v \<Rightarrow>
          let viewCid = cid v;
              s1 = (case model v of
                      Some m \<Rightarrow> this\<lparr>u_indexByModel := AList.delete (mcid m) (u_indexByModel this)\<rparr>
                    | None \<Rightarrow> this);
              s2 = fst (any' (delete_custom viewCid) (u_indexByCustom s1) s1);
              s3 = s2\<lparr>u_views := AList.delete viewCid (u_views s2)\<rparr>
          in Inr (u_updateLength s3)
      | _ \<Rightarrow> Inl TypeError)"

text \<open>
  \<open>removeView\<close>. The views are Backbone views: the source itself installs \<open>remove\<close> on
  \<^verbatim>\<open>Backbone.View.prototype\<close>, so \<^verbatim>\<open>view.remove()\<close> is the function above, called
  without an element.
\<close>

definition removeView :: "registry \<Rightarrow> view jsval \<Rightarrow> error + registry \<times> call list" where
  "removeView this view =
     (if view \<noteq> Null
      then (case removeFromContainer this view of
              Inl e \<Rightarrow> Inl e
            | Inr s \<Rightarrow>
                (case view of
                   Obj v \<Rightarrow> Inr (s, remove v Undefined)
                 | _ \<Rightarrow> Inl TypeError))
      else Inr (this, []))"

text \<open>
  \<open>attach\<close>. The whole body is inside \<^verbatim>\<open>if (!view.collection)\<close>. The template's
  output goes through \<^verbatim>\<open>$\<close> before it is handed to \<^verbatim>\<open>view.$el.html\<close>, and
  \<^verbatim>\<open>view.render()\<close> raises when the view has no callable member of that name.
\<close>

definition attach :: "(html \<Rightarrow> error + dom) \<Rightarrow> view jsval \<Rightarrow> error + call list" where
  "attach jq view =
     (case view of
        Obj v \<Rightarrow>
          if collection v = None
          then (case model v of
                  None \<Rightarrow> Inl TypeError
                | Some m \<Rightarrow>
                    let (arg, c1) = (if attributes m \<noteq> None
                                     then (Snapshot (toJSON m), [ToJSON m])
                                     else (ModelItself m, []))
                    in (case (case template v of
                                Undefined \<Rightarrow> Inr c1
                              | Null \<Rightarrow> Inl TypeError
                              | Obj t \<Rightarrow>
                                  (case jq (t arg) of
                                     Inl e \<Rightarrow> Inl e
                                   | Inr content \<Rightarrow>
                                       Inr (c1 @ [Template v arg, JQuery (t arg), Html v content]))) of
                          Inl e \<Rightarrow> Inl e
                        | Inr c2 \<Rightarrow>
                            if ''render'' \<in> set (members v)
                            then Inr (c2 @ [Render v])
                            else Inl TypeError))
          else Inr []
      | _ \<Rightarrow> Inl TypeError)"

text \<open>
  \<^verbatim>\<open>createView\<close>: the constructor \<open>ViewType\<close> is the caller's; it returns the new view
  or raises.
\<close>

definition createView ::
  "registry \<Rightarrow> ('o \<Rightarrow> error + view) \<Rightarrow> 'o \<Rightarrow> string jsval \<Rightarrow> error + registry \<times> view" where
  "createView this ViewType options customIndex =
     (case ViewType options of
        Inl e \<Rightarrow> Inl e
      | Inr v \<Rightarrow>
          (case (if truthy customIndex
                 then storeView this (Obj v) customIndex
                 else storeView this (Obj v) Undefined) of
             Inl e \<Rightarrow> Inl e
           | Inr s \<Rightarrow> Inr (s, v)))"

text \<open>
  \<^verbatim>\<open>apply\<close>: \<^verbatim>\<open>fn.apply(view, args || [])\<close> calls \<open>fn\<close> with the elements of the
  array as its positional arguments, which is the list an \<open>Invoke\<close> carries.
\<close>

definition apply' :: "registry \<Rightarrow> string \<Rightarrow> val list jsval \<Rightarrow> call list" where
  "apply' this method args =
     each' (\<lambda>v. if method \<in> set (members v)
                then [Invoke v method (case args of Obj a \<Rightarrow> a | _ \<Rightarrow> [])]
                else [])
           (u_views this)"

definition attachSingleView ::
  "(html \<Rightarrow> error + dom) \<Rightarrow> registry \<Rightarrow> string \<Rightarrow> error + call list" where
  "attachSingleView jq this index = (let v = get_prop (u_views this) index in attach jq v)"

definition u_getByCid :: "registry \<Rightarrow> string jsval \<Rightarrow> view jsval" where
  "u_getByCid this c = get_prop (u_views this) (to_key c)"

text \<open>
  The two indexed accessors end in the call \<^verbatim>\<open>this.getByCid(viewCid)\<close>. A call of a
  member the object does not have raises \<^verbatim>\<open>TypeError\<close>; the accessor by handle is
  declared under the name \<^verbatim>\<open>_getByCid\<close>.
\<close>

definition u_getByModelCid :: "registry \<Rightarrow> string \<Rightarrow> error + view jsval" where
  "u_getByModelCid this modelCid =
     (let viewCid = get_prop (u_indexByModel this) modelCid
      in if this_member ''getByCid'' then Inr (u_getByCid this viewCid) else Inl TypeError)"

definition u_getByCustom :: "registry \<Rightarrow> string \<Rightarrow> error + view jsval" where
  "u_getByCustom this index =
     (let viewCid = get_prop (u_indexByCustom this) index
      in if this_member ''getByCid'' then Inr (u_getByCid this viewCid) else Inl TypeError)"

subsection \<open>Sequences of operations\<close>

datatype 'o op =
    StoreView "view jsval" "string jsval"
  | CreateView "'o \<Rightarrow> error + view" 'o "string jsval"
  | RemoveFromContainer "view jsval"
  | RemoveView "view jsval"

fun step :: "registry \<Rightarrow> 'o op \<Rightarrow> error + registry" where
  "step s (StoreView v k) = storeView s v k"
| "step s (CreateView ViewType options k) = map_sum id fst (createView s ViewType options k)"
| "step s (RemoveFromContainer v) = removeFromContainer s v"
| "step s (RemoveView v) = map_sum id fst (removeView s v)"

text \<open>A raise ends the sequence.\<close>

fun run :: "registry \<Rightarrow> 'o op list \<Rightarrow> error + registry" where
  "run s [] = Inr s"
| "run s (x # xs) = (case step s x of Inl e \<Rightarrow> Inl e | Inr s' \<Rightarrow> run s' xs)"

subsection \<open>Properties of registry states and of sequences\<close>

text \<open>Every handle an index targets is a key of \<open>u_views\<close>.\<close>

definition handles_registered :: "registry \<Rightarrow> bool" where
  "handles_registered s \<longleftrightarrow>
     list_all (\<lambda>kv. snd kv \<in> set (map fst (u_views s))) (u_indexByModel s) \<and>
     list_all (\<lambda>kv. snd kv \<in> set (map fst (u_views s))) (u_indexByCustom s)"

text \<open>
  The discipline under which the indexes stay consistent: a view is stored only under
  a handle that is not registered at that moment, and a view is removed only if its
  handle is not registered or the registered view is bound to the same model identity.
\<close>

definition fresh :: "registry \<Rightarrow> view \<Rightarrow> bool" where
  "fresh s v \<longleftrightarrow> map_of (u_views s) (cid v) = None"

definition as_stored :: "registry \<Rightarrow> view \<Rightarrow> bool" where
  "as_stored s v \<longleftrightarrow>
     (case map_of (u_views s) (cid v) of
        None \<Rightarrow> True
      | Some w \<Rightarrow> map_option mcid (model w) = map_option mcid (model v))"

fun allowed :: "registry \<Rightarrow> 'o op \<Rightarrow> bool" where
  "allowed s (StoreView v k) = (case v of Obj w \<Rightarrow> fresh s w | _ \<Rightarrow> True)"
| "allowed s (CreateView ViewType options k) =
     (case ViewType options of Inr w \<Rightarrow> fresh s w | Inl _ \<Rightarrow> True)"
| "allowed s (RemoveFromContainer v) = (case v of Obj w \<Rightarrow> as_stored s w | _ \<Rightarrow> True)"
| "allowed s (RemoveView v) = (case v of Obj w \<Rightarrow> as_stored s w | _ \<Rightarrow> True)"

fun disciplined :: "registry \<Rightarrow> 'o op list \<Rightarrow> bool" where
  "disciplined s [] = True"
| "disciplined s (x # xs) =
     (allowed s x \<and> (case step s x of Inl _ \<Rightarrow> True | Inr s' \<Rightarrow> disciplined s' xs))"

text \<open>The handles a sequence of operations hands to \<open>storeView\<close>.\<close>

fun stored :: "'o op \<Rightarrow> string list" where
  "stored (StoreView v k) = (case v of Obj w \<Rightarrow> [cid w] | _ \<Rightarrow> [])"
| "stored (CreateView ViewType options k) =
     (case ViewType options of Inr w \<Rightarrow> [cid w] | Inl _ \<Rightarrow> [])"
| "stored (RemoveFromContainer v) = []"
| "stored (RemoveView v) = []"

text \<open>
  The invariant that carries the proof: besides \<open>handles_registered\<close>, no handle is the
  target of two custom keys, and a model identity that targets a registered view is the
  identity of that view's model.
\<close>

definition consistent :: "registry \<Rightarrow> bool" where
  "consistent s \<longleftrightarrow>
     handles_registered s \<and>
     distinct (map snd (u_indexByCustom s)) \<and>
     list_all (\<lambda>kv. case map_of (u_views s) (snd kv) of
                       None \<Rightarrow> True
                     | Some w \<Rightarrow> map_option mcid (model w) = Some (fst kv))
              (u_indexByModel s)"

subsection \<open>Sample objects\<close>

definition model_m :: model where
  "model_m =
     \<lparr>mcid = ''c1'', attributes = Some [(''title'', Str ''a'')],
      toJSON = [(''title'', Str ''a'')]\<rparr>"

definition plain_m :: model where
  "plain_m = \<lparr>mcid = ''c2'', attributes = None, toJSON = []\<rparr>"

definition template_p :: "tdata \<Rightarrow> html" where
  "template_p d = (case d of Snapshot _ \<Rightarrow> ''<p>a</p>'' | ModelItself _ \<Rightarrow> ''<p></p>'')"

definition view_a :: view where
  "view_a =
     \<lparr>cid = ''view1'', model = Some model_m, collection = None, template = Obj template_p,
      members = [''render'', ''remove'', ''customMethod'']\<rparr>"

definition view_b :: view where
  "view_b =
     \<lparr>cid = ''view2'', model = Some model_m, collection = None, template = Undefined,
      members = [''render'', ''remove'']\<rparr>"







text \<open>A view constructor, as handed to \<open>createView\<close>.\<close>

definition ViewB :: "unit \<Rightarrow> error + view" where
  "ViewB options = Inr view_b"

definition view_p :: view where
  "view_p =
     \<lparr>cid = ''view4'', model = Some plain_m, collection = None, template = Obj template_p,
      members = [''render'', ''remove'', ''customMethod'']\<rparr>"

text \<open>
  Registries: \<open>registry_k\<close> is a new registry after \<open>storeView(view_a, "k")\<close>;
  \<open>registry_a\<close>, \<open>registry_ab\<close> and \<open>registry_b\<close> are a new registry after
  \<open>storeView(view_a)\<close>, then \<open>storeView(view_b)\<close>, then \<open>removeFromContainer(view_a)\<close>;
  \<open>registry_bp\<close> is a new registry after \<open>storeView(view_b, "beta")\<close> and
  \<open>storeView(view_p)\<close>.
\<close>

definition registry_k :: registry where
  "registry_k =
     \<lparr>u_views = [(''view1'', view_a)], u_indexByModel = [(''c1'', ''view1'')],
      u_indexByCustom = [(''k'', ''view1'')], length' = Some 1\<rparr>"

definition registry_a :: registry where
  "registry_a =
     \<lparr>u_views = [(''view1'', view_a)], u_indexByModel = [(''c1'', ''view1'')],
      u_indexByCustom = [], length' = Some 1\<rparr>"

definition registry_ab :: registry where
  "registry_ab =
     \<lparr>u_views = [(''view1'', view_a), (''view2'', view_b)],
      u_indexByModel = [(''c1'', ''view2'')], u_indexByCustom = [], length' = Some 2\<rparr>"

definition registry_b :: registry where
  "registry_b =
     \<lparr>u_views = [(''view2'', view_b)], u_indexByModel = [], u_indexByCustom = [],
      length' = Some 1\<rparr>"

definition registry_bp :: registry where
  "registry_bp =
     \<lparr>u_views = [(''view2'', view_b), (''view4'', view_p)],
      u_indexByModel = [(''c1'', ''view2''), (''c2'', ''view4'')],
      u_indexByCustom = [(''beta'', ''view2'')], length' = Some 2\<rparr>"

section \<open>Basic facts\<close>

subsection \<open>What the two mutators leave behind\<close>

lemma any_delete_custom:
  "fst (any' (delete_custom c) kvs s) =
     (case find (\<lambda>kv. snd kv = c) kvs of
        None \<Rightarrow> s
      | Some kv \<Rightarrow> s\<lparr>u_indexByCustom := AList.delete (fst kv) (u_indexByCustom s)\<rparr>)"
  by (induction kvs arbitrary: s) (auto simp: delete_custom_def)

lemma storeView_Obj:
  "storeView s (Obj v) k =
     Inr \<lparr>u_views = AList.update (cid v) v (u_views s),
          u_indexByModel = (case model v of
                              Some m \<Rightarrow> AList.update (mcid m) (cid v) (u_indexByModel s)
                            | None \<Rightarrow> u_indexByModel s),
          u_indexByCustom = (if truthy k
                             then AList.update (to_key k) (cid v) (u_indexByCustom s)
                             else u_indexByCustom s),
          length' = Some (length (AList.update (cid v) v (u_views s)))\<rparr>"
  by (cases s) (simp add: storeView_def Let_def u_updateLength_def split: option.split)

lemma removeFromContainer_Obj:
  "removeFromContainer s (Obj v) =
     Inr \<lparr>u_views = AList.delete (cid v) (u_views s),
          u_indexByModel = (case model v of
                              Some m \<Rightarrow> AList.delete (mcid m) (u_indexByModel s)
                            | None \<Rightarrow> u_indexByModel s),
          u_indexByCustom = (case find (\<lambda>kv. snd kv = cid v) (u_indexByCustom s) of
                               None \<Rightarrow> u_indexByCustom s
                             | Some kv \<Rightarrow> AList.delete (fst kv) (u_indexByCustom s)),
          length' = Some (length (AList.delete (cid v) (u_views s)))\<rparr>"
  by (cases s)
     (simp add: removeFromContainer_def Let_def u_updateLength_def any_delete_custom
           split: option.split)

lemma removeView_Null: "removeView s Null = Inr (s, [])"
  by (simp add: removeView_def)

lemma removeView_Obj:
  "removeView s (Obj v) =
     map_sum id (\<lambda>s'. (s', [Empty v, UndelegateEvents v])) (removeFromContainer s (Obj v))"
  by (simp add: removeView_def remove_def removeFromContainer_def Let_def)



lemma removeView_Undefined: "removeView s Undefined = Inl TypeError"
  by (simp add: removeView_def removeFromContainer_def)

lemma step_RemoveView_Obj: "step s (RemoveView (Obj w)) = removeFromContainer s (Obj w)"
  by (simp add: removeView_Obj removeFromContainer_Obj)



lemma step_CreateView:
  "step s (CreateView T opts k) =
     (case T opts of
        Inl e \<Rightarrow> Inl e
      | Inr w \<Rightarrow> storeView s (Obj w) (if truthy k then k else Undefined))"
  by (simp add: createView_def storeView_Obj split: sum.split)

lemma attach_no_model:
  "collection v = None \<Longrightarrow> model v = None \<Longrightarrow> attach jq (Obj v) = Inl TypeError"
  by (simp add: attach_def)

lemma attach_no_render:
  "collection v = None \<Longrightarrow> model v = Some m \<Longrightarrow> ''render'' \<notin> set (members v) \<Longrightarrow>
   \<exists>e. attach jq (Obj v) = Inl e"
  by (cases "template v") (auto simp: attach_def split: sum.splits prod.splits)

lemma this_member_getByCid: "\<not> this_member ''getByCid''"
  by (simp add: this_member_def instance_members_def prototype_members_def
        events_members_def object_members_def)

lemma attachSingleView_absent:
  "map_of (u_views s) h = None \<Longrightarrow> attachSingleView jq s h = Inl TypeError"
  by (simp add: attachSingleView_def attach_def get_prop_def)

subsection \<open>Association lists\<close>

lemma set_update_subset: "set (AList.update k v al) \<subseteq> insert (k, v) (set al)"
  by (induction al) auto

lemma set_delete_subset: "set (AList.delete k al) \<subseteq> set al"
  by (auto simp: AList.delete_eq)

lemma in_delete_key: "kv \<in> set (AList.delete k al) \<Longrightarrow> fst kv \<noteq> k"
  by (auto simp: AList.delete_eq)

lemma distinct_snd_update:
  "distinct (map snd al) \<Longrightarrow> c \<notin> snd ` set al \<Longrightarrow> distinct (map snd (AList.update k c al))"
  by (induction al) (auto simp: image_iff dest!: subsetD[OF set_update_subset])

lemma distinct_snd_delete:
  "distinct (map snd al) \<Longrightarrow> distinct (map snd (AList.delete k al))"
  by (simp add: AList.delete_eq distinct_map_filter)

lemma find_target_delete:
  assumes "find (\<lambda>kv. snd kv = c) al = Some kv" and "distinct (map snd al)"
    and "kv' \<in> set (AList.delete (fst kv) al)"
  shows "snd kv' \<noteq> c"
proof
  assume c: "snd kv' = c"
  from assms(1) have kv: "kv \<in> set al" "snd kv = c"
    by (auto simp: find_Some_iff)
  from assms(3) have kv': "kv' \<in> set al" "fst kv' \<noteq> fst kv"
    using set_delete_subset in_delete_key by fastforce+
  from assms(2) have "inj_on snd (set al)"
    by (simp add: distinct_map)
  with kv kv' c have "kv' = kv"
    by (auto dest: inj_onD)
  with kv' show False by simp
qed

lemma find_target_None:
  "find (\<lambda>kv. snd kv = c) al = None \<Longrightarrow> kv \<in> set al \<Longrightarrow> snd kv \<noteq> c"
  by (induction al) (auto split: if_splits)

lemma map_of_None_keys: "map_of al k = None \<longleftrightarrow> k \<notin> fst ` set al"
  by (simp add: map_of_eq_None_iff)

lemma keys_update: "fst ` set (AList.update k v al) = insert k (fst ` set al)"
  by (simp add: AList.dom_update)

lemma keys_delete: "fst ` set (AList.delete k al) = fst ` set al - {k}"
  by (auto simp: AList.delete_eq image_iff)

subsection \<open>The discipline keeps the indexes consistent\<close>

lemma consistent_storeView:
  assumes c: "consistent s" and f: "fresh s v" and st: "storeView s (Obj v) k = Inr s'"
  shows "consistent s'"
proof -
  from f have fr: "cid v \<notin> fst ` set (u_views s)"
    by (simp add: fresh_def map_of_None_keys)
  from st have V: "u_views s' = AList.update (cid v) v (u_views s)"
    and M: "u_indexByModel s' = (case model v of
              Some m \<Rightarrow> AList.update (mcid m) (cid v) (u_indexByModel s)
            | None \<Rightarrow> u_indexByModel s)"
    and C: "u_indexByCustom s' = (if truthy k
              then AList.update (to_key k) (cid v) (u_indexByCustom s)
              else u_indexByCustom s)"
    by (auto simp: storeView_Obj)
  from c have hm: "\<And>kv. kv \<in> set (u_indexByModel s) \<Longrightarrow> snd kv \<in> fst ` set (u_views s)"
    and hc: "\<And>kv. kv \<in> set (u_indexByCustom s) \<Longrightarrow> snd kv \<in> fst ` set (u_views s)"
    and dc: "distinct (map snd (u_indexByCustom s))"
    and mk: "\<And>kv w. kv \<in> set (u_indexByModel s) \<Longrightarrow> map_of (u_views s) (snd kv) = Some w
                \<Longrightarrow> map_option mcid (model w) = Some (fst kv)"
    by (auto simp: consistent_def handles_registered_def list_all_iff)
  have keys: "fst ` set (u_views s') = insert (cid v) (fst ` set (u_views s))"
    by (simp add: V keys_update)
  have inM: "kv \<in> set (u_indexByModel s) \<or> (\<exists>m. model v = Some m \<and> kv = (mcid m, cid v))"
    if "kv \<in> set (u_indexByModel s')" for kv
  proof (cases "model v")
    case None
    with that show ?thesis by (simp add: M)
  next
    case (Some m)
    with that have "kv \<in> insert (mcid m, cid v) (set (u_indexByModel s))"
      using set_update_subset[of "mcid m" "cid v" "u_indexByModel s"] by (auto simp: M)
    with Some show ?thesis by auto
  qed
  have inC: "kv \<in> set (u_indexByCustom s) \<or> snd kv = cid v"
    if "kv \<in> set (u_indexByCustom s')" for kv
  proof (cases "truthy k")
    case False
    with that show ?thesis by (simp add: C)
  next
    case True
    with that have "kv \<in> insert (to_key k, cid v) (set (u_indexByCustom s))"
      using set_update_subset[of "to_key k" "cid v" "u_indexByCustom s"] by (auto simp: C)
    then show ?thesis by auto
  qed
  have h1a: "snd kv \<in> fst ` set (u_views s')" if "kv \<in> set (u_indexByModel s')" for kv
    using inM[OF that] hm[of kv] keys by auto
  have h1b: "snd kv \<in> fst ` set (u_views s')" if "kv \<in> set (u_indexByCustom s')" for kv
    using inC[OF that] hc[of kv] keys by auto
  from h1a h1b have h1: "handles_registered s'"
    by (simp add: handles_registered_def list_all_iff)
  have "cid v \<notin> snd ` set (u_indexByCustom s)"
    using hc fr by auto
  with dc have h2: "distinct (map snd (u_indexByCustom s'))"
    by (simp add: C distinct_snd_update)
  have h3: "map_option mcid (model w) = Some (fst kv)"
    if "kv \<in> set (u_indexByModel s')" and "map_of (u_views s') (snd kv) = Some w" for kv w
  proof (cases "snd kv = cid v")
    case True
    with that(2) have w: "w = v" by (simp add: V AList.update_conv')
    have "kv \<notin> set (u_indexByModel s)"
      using hm[of kv] fr True by auto
    with inM[OF that(1)] obtain m where "model v = Some m" "kv = (mcid m, cid v)"
      by auto
    with w show ?thesis by simp
  next
    case False
    with inM[OF that(1)] have "kv \<in> set (u_indexByModel s)" by auto
    moreover from False that(2) have "map_of (u_views s) (snd kv) = Some w"
      by (simp add: V AList.update_conv')
    ultimately show ?thesis by (rule mk)
  qed
  from h3 have "list_all (\<lambda>kv. case map_of (u_views s') (snd kv) of
                       None \<Rightarrow> True
                     | Some w \<Rightarrow> map_option mcid (model w) = Some (fst kv))
              (u_indexByModel s')"
    by (simp add: list_all_iff split: option.split)
  with h1 h2 show ?thesis
    by (simp add: consistent_def)
qed

lemma consistent_removeFromContainer:
  assumes c: "consistent s" and a: "as_stored s v" and rm: "removeFromContainer s (Obj v) = Inr s'"
  shows "consistent s'"
proof -
  from rm have V: "u_views s' = AList.delete (cid v) (u_views s)"
    and M: "u_indexByModel s' = (case model v of
              Some m \<Rightarrow> AList.delete (mcid m) (u_indexByModel s)
            | None \<Rightarrow> u_indexByModel s)"
    and C: "u_indexByCustom s' = (case find (\<lambda>kv. snd kv = cid v) (u_indexByCustom s) of
              None \<Rightarrow> u_indexByCustom s
            | Some kv \<Rightarrow> AList.delete (fst kv) (u_indexByCustom s))"
    by (auto simp: removeFromContainer_Obj)
  from c have hm: "\<And>kv. kv \<in> set (u_indexByModel s) \<Longrightarrow> snd kv \<in> fst ` set (u_views s)"
    and hc: "\<And>kv. kv \<in> set (u_indexByCustom s) \<Longrightarrow> snd kv \<in> fst ` set (u_views s)"
    and dc: "distinct (map snd (u_indexByCustom s))"
    and mk: "\<And>kv w. kv \<in> set (u_indexByModel s) \<Longrightarrow> map_of (u_views s) (snd kv) = Some w
                \<Longrightarrow> map_option mcid (model w) = Some (fst kv)"
    by (auto simp: consistent_def handles_registered_def list_all_iff)
  have keys: "fst ` set (u_views s') = fst ` set (u_views s) - {cid v}"
    by (simp add: V keys_delete)
  have subM: "kv \<in> set (u_indexByModel s)" if "kv \<in> set (u_indexByModel s')" for kv
    using that set_delete_subset[of _ "u_indexByModel s"]
    by (cases "model v") (auto simp: M)
  have subC: "kv \<in> set (u_indexByCustom s)" if "kv \<in> set (u_indexByCustom s')" for kv
    using that set_delete_subset[of _ "u_indexByCustom s"]
    by (cases "find (\<lambda>kv. snd kv = cid v) (u_indexByCustom s)") (auto simp: C)
  have tC: "snd kv \<noteq> cid v" if "kv \<in> set (u_indexByCustom s')" for kv
  proof (cases "find (\<lambda>kv. snd kv = cid v) (u_indexByCustom s)")
    case None
    with that have "kv \<in> set (u_indexByCustom s)" by (simp add: C)
    with None show ?thesis by (rule find_target_None)
  next
    case (Some kv0)
    with that have "kv \<in> set (AList.delete (fst kv0) (u_indexByCustom s))" by (simp add: C)
    with Some dc show ?thesis by (rule find_target_delete)
  qed
  have tM: "snd kv \<noteq> cid v" if "kv \<in> set (u_indexByModel s')" for kv
  proof
    assume t: "snd kv = cid v"
    from that have in_s: "kv \<in> set (u_indexByModel s)" by (rule subM)
    from hm[OF in_s] t obtain w where w: "map_of (u_views s) (cid v) = Some w"
      by (cases "map_of (u_views s) (cid v)") (auto simp: map_of_None_keys)
    with mk[OF in_s] t have "map_option mcid (model w) = Some (fst kv)" by simp
    with a w have "map_option mcid (model v) = Some (fst kv)"
      by (simp add: as_stored_def)
    then obtain m where m: "model v = Some m" "mcid m = fst kv" by auto
    with that have "kv \<in> set (AList.delete (fst kv) (u_indexByModel s))"
      by (simp add: M)
    then have "fst kv \<noteq> fst kv" by (rule in_delete_key)
    then show False by simp
  qed
  have h1a: "snd kv \<in> fst ` set (u_views s')" if "kv \<in> set (u_indexByModel s')" for kv
    using hm[OF subM[OF that]] tM[OF that] keys by auto
  have h1b: "snd kv \<in> fst ` set (u_views s')" if "kv \<in> set (u_indexByCustom s')" for kv
    using hc[OF subC[OF that]] tC[OF that] keys by auto
  from h1a h1b have h1: "handles_registered s'"
    by (simp add: handles_registered_def list_all_iff)
  from dc have h2: "distinct (map snd (u_indexByCustom s'))"
    by (cases "find (\<lambda>kv. snd kv = cid v) (u_indexByCustom s)")
       (simp_all add: C distinct_snd_delete)
  have h3: "map_option mcid (model w) = Some (fst kv)"
    if "kv \<in> set (u_indexByModel s')" and "map_of (u_views s') (snd kv) = Some w" for kv w
  proof -
    from that(1) have "kv \<in> set (u_indexByModel s)" by (rule subM)
    moreover from tM[OF that(1)] that(2) have "map_of (u_views s) (snd kv) = Some w"
      by (simp add: V AList.delete_conv')
    ultimately show ?thesis by (rule mk)
  qed
  from h3 have "list_all (\<lambda>kv. case map_of (u_views s') (snd kv) of
                       None \<Rightarrow> True
                     | Some w \<Rightarrow> map_option mcid (model w) = Some (fst kv))
              (u_indexByModel s')"
    by (simp add: list_all_iff split: option.split)
  with h1 h2 show ?thesis
    by (simp add: consistent_def)
qed

lemma consistent_new: "consistent ViewController"
  by (simp add: consistent_def handles_registered_def ViewController_def)

lemma consistent_step:
  assumes "consistent s" and "allowed s x" and "step s x = Inr s'"
  shows "consistent s'"
proof (cases x)
  case (StoreView v k)
  with assms show ?thesis
    by (cases v) (auto simp: storeView_def intro: consistent_storeView)
next
  case (CreateView T opts k)
  with assms show ?thesis
    by (cases "T opts")
       (auto simp: createView_def split: if_splits sum.splits intro: consistent_storeView)
next
  case (RemoveFromContainer v)
  with assms show ?thesis
    by (cases v) (auto simp: removeFromContainer_def intro: consistent_removeFromContainer)
next
  case (RemoveView v)
  with assms show ?thesis
    by (cases v)
       (auto simp: removeView_def removeFromContainer_def split: sum.splits
             intro: consistent_removeFromContainer)
qed

lemma consistent_run:
  "consistent s \<Longrightarrow> disciplined s xs \<Longrightarrow> run s xs = Inr s' \<Longrightarrow> consistent s'"
proof (induction xs arbitrary: s)
  case Nil
  then show ?case by simp
next
  case (Cons x xs)
  then show ?case
    by (cases "step s x") (auto dest: consistent_step)
qed

subsection \<open>Where the handles of a state come from\<close>

lemma storeView_handles:
  assumes "storeView s (Obj v) k = Inr s'"
  shows "fst ` set (u_views s') \<subseteq> insert (cid v) (fst ` set (u_views s))"
    and "snd ` set (u_indexByCustom s') \<subseteq> insert (cid v) (snd ` set (u_indexByCustom s))"
proof -
  from assms have V: "u_views s' = AList.update (cid v) v (u_views s)"
    and C: "u_indexByCustom s' = (if truthy k
              then AList.update (to_key k) (cid v) (u_indexByCustom s)
              else u_indexByCustom s)"
    by (auto simp: storeView_Obj)
  show "fst ` set (u_views s') \<subseteq> insert (cid v) (fst ` set (u_views s))"
    by (simp add: V keys_update)
  show "snd ` set (u_indexByCustom s') \<subseteq> insert (cid v) (snd ` set (u_indexByCustom s))"
    using set_update_subset[of "to_key k" "cid v" "u_indexByCustom s"]
    by (auto simp: C)
qed

lemma removeFromContainer_handles:
  assumes "removeFromContainer s (Obj v) = Inr s'"
  shows "fst ` set (u_views s') \<subseteq> fst ` set (u_views s)"
    and "snd ` set (u_indexByCustom s') \<subseteq> snd ` set (u_indexByCustom s)"
proof -
  from assms have V: "u_views s' = AList.delete (cid v) (u_views s)"
    and C: "u_indexByCustom s' = (case find (\<lambda>kv. snd kv = cid v) (u_indexByCustom s) of
              None \<Rightarrow> u_indexByCustom s
            | Some kv \<Rightarrow> AList.delete (fst kv) (u_indexByCustom s))"
    by (auto simp: removeFromContainer_Obj)
  show "fst ` set (u_views s') \<subseteq> fst ` set (u_views s)"
    by (auto simp: V keys_delete)
  show "snd ` set (u_indexByCustom s') \<subseteq> snd ` set (u_indexByCustom s)"
    using set_delete_subset[of _ "u_indexByCustom s"]
    by (cases "find (\<lambda>kv. snd kv = cid v) (u_indexByCustom s)") (auto simp: C)
qed

lemma step_handles:
  assumes "step s x = Inr s'"
  shows "fst ` set (u_views s') \<subseteq> fst ` set (u_views s) \<union> set (stored x)
       \<and> snd ` set (u_indexByCustom s') \<subseteq> snd ` set (u_indexByCustom s) \<union> set (stored x)"
proof (cases x)
  case (StoreView v k)
  with assms show ?thesis
    using storeView_handles[of s _ k s']
    by (cases v) (auto simp: storeView_def)
next
  case (CreateView T opts k)
  show ?thesis
  proof (cases "T opts")
    case (Inl e)
    with assms CreateView show ?thesis by (simp add: createView_def)
  next
    case (Inr w)
    with assms CreateView
    have "storeView s (Obj w) (if truthy k then k else Undefined) = Inr s'"
      by (simp del: step.simps add: step_CreateView)
    from storeView_handles[OF this] CreateView Inr show ?thesis by auto
  qed
next
  case (RemoveFromContainer v)
  with assms show ?thesis
    using removeFromContainer_handles[of s _ s']
    by (cases v) (auto simp: removeFromContainer_def)
next
  case (RemoveView v)
  show ?thesis
  proof (cases v)
    case Undefined
    with assms RemoveView show ?thesis by (simp add: removeView_Undefined)
  next
    case Null
    with assms RemoveView show ?thesis by (auto simp: removeView_Null)
  next
    case (Obj w)
    with assms RemoveView have "removeFromContainer s (Obj w) = Inr s'"
      by (simp del: step.simps add: step_RemoveView_Obj)
    from removeFromContainer_handles[OF this] show ?thesis by auto
  qed
qed

lemma run_handles:
  "run s xs = Inr s' \<Longrightarrow>
     fst ` set (u_views s') \<subseteq> fst ` set (u_views s) \<union> set (concat (map stored xs))
   \<and> snd ` set (u_indexByCustom s') \<subseteq> snd ` set (u_indexByCustom s) \<union> set (concat (map stored xs))"
proof (induction xs arbitrary: s)
  case Nil
  then show ?case by simp
next
  case (Cons x xs)
  then obtain s1 where s1: "step s x = Inr s1" "run s1 xs = Inr s'"
    by (cases "step s x") auto
  from step_handles[OF s1(1)]
  have a: "fst ` set (u_views s1) \<subseteq> fst ` set (u_views s) \<union> set (stored x)"
    and b: "snd ` set (u_indexByCustom s1) \<subseteq> snd ` set (u_indexByCustom s) \<union> set (stored x)"
    by simp_all
  from Cons.IH[OF s1(2)]
  have c: "fst ` set (u_views s') \<subseteq> fst ` set (u_views s1) \<union> set (concat (map stored xs))"
    and d: "snd ` set (u_indexByCustom s')
              \<subseteq> snd ` set (u_indexByCustom s1) \<union> set (concat (map stored xs))"
    by simp_all
  from a c have "fst ` set (u_views s')
      \<subseteq> fst ` set (u_views s) \<union> (set (stored x) \<union> set (concat (map stored xs)))"
    by blast
  moreover from b d have "snd ` set (u_indexByCustom s')
      \<subseteq> snd ` set (u_indexByCustom s) \<union> (set (stored x) \<union> set (concat (map stored xs)))"
    by blast
  ultimately show ?case by simp
qed

subsection \<open>The count\<close>





subsection \<open>The calls of \<open>apply\<close>\<close>

lemma each'_invoke:
  "each' (\<lambda>v. if P v then [g v] else []) kvs = map g (filter P (map snd kvs))"
  by (induction kvs) auto

lemma apply'_list:
  "apply' s method args =
     map (\<lambda>v. Invoke v method (case args of Obj a \<Rightarrow> a | _ \<Rightarrow> []))
         (filter (\<lambda>v. method \<in> set (members v)) (map snd (u_views s)))"
  by (simp add: apply'_def each'_invoke)

lemma not_own_element: "[Arr a] \<noteq> a"
proof
  assume "[Arr a] = a"
  then have "size_list size [Arr a] = size_list size a" by simp
  then show False by simp
qed

section \<open>The claims\<close>

subsection \<open>C1: what \<open>attach\<close> calls\<close>




subsection \<open>C2: \<open>removeView\<close> and a missing view\<close>

text \<open>
  C2. The guard of \<open>removeView\<close> is \<^verbatim>\<open>view !== null\<close>. For \<^verbatim>\<open>null\<close> the call does
  nothing (\<open>removeView_Null\<close>), and for a present view it removes the view from the
  registry and then empties the root element and undelegates the events
  (\<open>removeView_Obj\<close>). A missing view that is \<^verbatim>\<open>undefined\<close> passes the guard, and
  \<open>removeFromContainer\<close> reads its \<^verbatim>\<open>cid\<close>. That is the value every lookup yields
  for an unknown handle: removing the view looked up under the handle \<open>view9\<close> of a new
  registry raises \<^verbatim>\<open>TypeError\<close>, where the specification has the call do nothing.
\<close>

theorem removeView_of_unknown_handle_raises:
  "u_getByCid ViewController (Obj ''view9'') = Undefined
   \<and> removeView ViewController (u_getByCid ViewController (Obj ''view9'')) = Inl TypeError"
  by (simp add: u_getByCid_def get_prop_def ViewController_def removeView_def
        removeFromContainer_def)

subsection \<open>C3: lookup by custom key\<close>

text \<open>
  What the indexes hold is as the specification says: after \<open>storeView\<close> the custom key
  and the model identity resolve to the handle of the view, and the handle resolves to
  the view; after \<open>removeFromContainer\<close> the handle resolves to nothing.
\<close>

lemma storeView_indexes:
  assumes "storeView s (Obj v) k = Inr s'"
  shows "u_getByCid s' (Obj (cid v)) = Obj v"
    and "truthy k \<Longrightarrow> get_prop (u_indexByCustom s') (to_key k) = Obj (cid v)"
    and "model v = Some m \<Longrightarrow> get_prop (u_indexByModel s') (mcid m) = Obj (cid v)"
  using assms
  by (auto simp: storeView_Obj u_getByCid_def get_prop_def AList.update_conv')

lemma removeFromContainer_handle:
  assumes "removeFromContainer s (Obj v) = Inr s'"
  shows "u_getByCid s' (Obj (cid v)) = Undefined"
  using assms
  by (auto simp: removeFromContainer_Obj u_getByCid_def get_prop_def AList.delete_conv')

text \<open>
  The accessors \<open>u_getByCustom\<close> and \<open>u_getByModelCid\<close> do not get that far: both call
  \<^verbatim>\<open>this.getByCid\<close>, and a registry has no member of that name.
\<close>

lemma u_getByCustom_raises: "u_getByCustom s k = Inl TypeError"
  by (simp add: u_getByCustom_def this_member_getByCid)

lemma u_getByModelCid_raises: "u_getByModelCid s m = Inl TypeError"
  by (simp add: u_getByModelCid_def this_member_getByCid)

text \<open>
  C3. After \<open>storeView(view_a, "k")\<close> on a new registry, the lookup by the custom key
  \<open>k\<close> raises \<^verbatim>\<open>TypeError\<close> where the specification has it return the view.
\<close>

theorem getByCustom_after_storeView_raises:
  "storeView ViewController (Obj view_a) (Obj ''k'') = Inr registry_k
   \<and> u_getByCustom registry_k ''k'' = Inl TypeError"
  by (simp add: storeView_Obj ViewController_def registry_k_def view_a_def model_m_def
        u_getByCustom_def this_member_getByCid)

subsection \<open>C4: \<open>attachSingleView\<close> and an unknown handle\<close>

text \<open>
  C4. On a new registry, \<open>attachSingleView\<close> of a handle that is not registered looks up
  \<^verbatim>\<open>undefined\<close> and hands it to \<open>attach\<close>, which reads \<^verbatim>\<open>view.collection\<close> without a
  guard: the call raises \<^verbatim>\<open>TypeError\<close> where the specification has it do nothing. The
  same holds in every registry (\<open>attachSingleView_absent\<close>).
\<close>

theorem attachSingleView_unknown_raises:
  "attachSingleView jq ViewController ''view9'' = Inl TypeError"
  by (simp add: attachSingleView_def attach_def get_prop_def ViewController_def)

subsection \<open>C5: the handles the indexes target\<close>

text \<open>
  C5, as stated, fails: a view stored twice under two custom keys and then removed
  leaves the second key behind, targeting a handle that is no longer registered
  (the scan of \<open>removeFromContainer\<close> stops at the first key it deletes).
\<close>

theorem handles_registered_counterexample:
  "map_sum id handles_registered
     (run ViewController
        [StoreView (Obj view_b) (Obj ''a''), StoreView (Obj view_b) (Obj ''b''),
         RemoveFromContainer (Obj view_b) :: unit op])
   = Inr False"
  by (simp add: storeView_Obj removeFromContainer_Obj ViewController_def view_b_def
        model_m_def handles_registered_def)

text \<open>
  C5, amended. In every state reached from a new registry by a sequence of
  \<open>storeView\<close>, \<open>createView\<close>, \<open>removeFromContainer\<close> and \<open>removeView\<close> in which every
  view is stored under a handle that is not registered at that moment and every view
  removed is either not registered or bound to the model identity of the view
  registered under its handle, every handle targeted by the model index or the custom
  index is a key of \<open>u_views\<close>.
\<close>

theorem handles_registered_disciplined:
  "disciplined ViewController xs \<Longrightarrow> run ViewController xs = Inr s \<Longrightarrow> handles_registered s"
  using consistent_run[OF consistent_new] by (auto simp: consistent_def)

theorem handles_registered_disciplined_witness:
  "disciplined ViewController
     [StoreView (Obj view_a) (Obj ''alpha''), CreateView ViewB () (Obj ''beta''),
      RemoveView (Obj view_b)]
   \<and> run ViewController
     [StoreView (Obj view_a) (Obj ''alpha''), CreateView ViewB () (Obj ''beta''),
      RemoveView (Obj view_b)]
     = Inr \<lparr>u_views = [(''view1'', view_a)], u_indexByModel = [],
            u_indexByCustom = [(''alpha'', ''view1'')], length' = Some 1\<rparr>
   \<and> handles_registered
       \<lparr>u_views = [(''view1'', view_a)], u_indexByModel = [],
        u_indexByCustom = [(''alpha'', ''view1'')], length' = Some 1\<rparr>"
proof -
  have r: "run ViewController
     [StoreView (Obj view_a) (Obj ''alpha''), CreateView ViewB () (Obj ''beta''),
      RemoveView (Obj view_b)]
     = Inr \<lparr>u_views = [(''view1'', view_a)], u_indexByModel = [],
            u_indexByCustom = [(''alpha'', ''view1'')], length' = Some 1\<rparr>"
    by (simp add: storeView_Obj removeView_Obj removeFromContainer_Obj createView_def
          ViewB_def ViewController_def view_a_def view_b_def model_m_def)
  have d: "disciplined ViewController
     [StoreView (Obj view_a) (Obj ''alpha''), CreateView ViewB () (Obj ''beta''),
      RemoveView (Obj view_b)]"
    by (simp add: storeView_Obj removeView_Obj removeFromContainer_Obj createView_def
          ViewB_def ViewController_def view_a_def view_b_def model_m_def fresh_def
          as_stored_def)
  from handles_registered_disciplined[OF d r] d r show ?thesis
    by simp
qed

subsection \<open>C6: lookup by model identity\<close>

text \<open>
  C6. After \<open>view_a\<close> and then \<open>view_b\<close>, both bound to the model \<open>c1\<close>, are stored, the
  model index targets \<open>view_b\<close> and \<open>view_a\<close> is still found by its handle, but the lookup
  by the model identity raises \<^verbatim>\<open>TypeError\<close> where the specification has it return
  \<open>view_b\<close>.
\<close>

theorem getByModelCid_after_storeView_raises:
  "run ViewController [StoreView (Obj view_a) Undefined, StoreView (Obj view_b) Undefined :: unit op]
     = Inr registry_ab
   \<and> get_prop (u_indexByModel registry_ab) ''c1'' = Obj ''view2''
   \<and> u_getByCid registry_ab (Obj ''view1'') = Obj view_a
   \<and> u_getByModelCid registry_ab ''c1'' = Inl TypeError"
  by (simp add: storeView_Obj ViewController_def registry_ab_def view_a_def view_b_def
        model_m_def u_getByModelCid_def this_member_getByCid u_getByCid_def get_prop_def)

subsection \<open>C7: the count\<close>




subsection \<open>C8: \<open>apply\<close>\<close>

text \<open>
  C8. For every method name and argument list, the calls \<open>apply\<close> makes are exactly one
  invocation of the named member on each registered view that has a callable member of
  that name, in the order of enumeration, with the elements of the argument list (or of
  the empty list, when no list is given) as positional arguments. Hence every registered
  view exposing the member is invoked; no call of any member is made on a view that lacks
  it; and the member never receives the argument list as a single array argument.
\<close>

theorem apply_invokes_exposing_views:
  "apply' s method args =
     map (\<lambda>v. Invoke v method (case args of Obj a \<Rightarrow> a | _ \<Rightarrow> []))
         (filter (\<lambda>v. method \<in> set (members v)) (map snd (u_views s)))
   \<and> (\<forall>v \<in> snd ` set (u_views s). method \<in> set (members v) \<longrightarrow>
         Invoke v method (case args of Obj a \<Rightarrow> a | _ \<Rightarrow> []) \<in> set (apply' s method args))
   \<and> (\<forall>v. method \<notin> set (members v) \<longrightarrow>
         (\<forall>n ps. Invoke v n ps \<notin> set (apply' s method args)))
   \<and> (\<forall>v a. Invoke v method [Arr a] \<notin> set (apply' s method (Obj a)))"
  using not_own_element by (auto simp: apply'_list)

theorem apply_invokes_exposing_views_witness:
  "view_a \<in> snd ` set (u_views registry_ab)
   \<and> ''customMethod'' \<in> set (members view_a)
   \<and> Invoke view_a ''customMethod'' [Num 1, Num 2]
       \<in> set (apply' registry_ab ''customMethod'' (Obj [Num 1, Num 2]))
   \<and> ''customMethod'' \<notin> set (members view_b)
   \<and> Invoke view_b ''customMethod'' [Num 1, Num 2]
       \<notin> set (apply' registry_ab ''customMethod'' (Obj [Num 1, Num 2]))
   \<and> Invoke view_a ''customMethod'' [Arr [Num 1, Num 2]]
       \<notin> set (apply' registry_ab ''customMethod'' (Obj [Num 1, Num 2]))"
proof -
  have a: "view_a \<in> snd ` set (u_views registry_ab)"
    by (simp add: registry_ab_def)
  have ma: "''customMethod'' \<in> set (members view_a)"
    by (simp add: view_a_def)
  have mb: "''customMethod'' \<notin> set (members view_b)"
    by (simp add: view_b_def)
  note t = apply_invokes_exposing_views[of registry_ab "''customMethod''" "Obj [Num 1, Num 2]"]
  from t have t2: "\<forall>v \<in> snd ` set (u_views registry_ab). ''customMethod'' \<in> set (members v) \<longrightarrow>
         Invoke v ''customMethod'' (case Obj [Num 1, Num 2] of Obj a \<Rightarrow> a | _ \<Rightarrow> [])
           \<in> set (apply' registry_ab ''customMethod'' (Obj [Num 1, Num 2]))"
    by (rule conjunct1[OF conjunct2])
  from t have t3: "\<forall>v. ''customMethod'' \<notin> set (members v) \<longrightarrow>
         (\<forall>n ps. Invoke v n ps \<notin> set (apply' registry_ab ''customMethod'' (Obj [Num 1, Num 2])))"
    by (rule conjunct1[OF conjunct2[OF conjunct2]])
  from t have t4: "\<forall>v a. Invoke v ''customMethod'' [Arr a]
         \<notin> set (apply' registry_ab ''customMethod'' (Obj a))"
    by (rule conjunct2[OF conjunct2[OF conjunct2]])
  from bspec[OF t2 a] ma
  have i: "Invoke view_a ''customMethod'' [Num 1, Num 2]
       \<in> set (apply' registry_ab ''customMethod'' (Obj [Num 1, Num 2]))"
    by simp
  from spec[OF t3, of view_b] mb
  have n: "Invoke view_b ''customMethod'' [Num 1, Num 2]
       \<notin> set (apply' registry_ab ''customMethod'' (Obj [Num 1, Num 2]))"
    by simp
  from spec[OF spec[OF t4], of view_a "[Num 1, Num 2]"]
  have s: "Invoke view_a ''customMethod'' [Arr [Num 1, Num 2]]
       \<notin> set (apply' registry_ab ''customMethod'' (Obj [Num 1, Num 2]))"
    .
  show ?thesis
    by (intro conjI a ma i mb n s)
qed

subsection \<open>C9: removing a view that was never registered\<close>

text \<open>
  C9, as stated, fails: \<open>view_a\<close> was never stored in the registry that holds only
  \<open>view_b\<close>, but both are bound to the model \<open>c1\<close>, and \<open>removeFromContainer(view_a)\<close>
  deletes the entry of \<open>c1\<close> from the model index. The maps are not left unchanged.
\<close>

theorem removeFromContainer_never_registered_counterexample:
  "run ViewController [StoreView (Obj view_b) Undefined :: unit op] =
     Inr \<lparr>u_views = [(''view2'', view_b)], u_indexByModel = [(''c1'', ''view2'')],
          u_indexByCustom = [], length' = Some 1\<rparr>
   \<and> removeFromContainer
         \<lparr>u_views = [(''view2'', view_b)], u_indexByModel = [(''c1'', ''view2'')],
          u_indexByCustom = [], length' = Some 1\<rparr> (Obj view_a)
       = Inr registry_b
   \<and> u_indexByModel registry_b = []"
  by (simp add: storeView_Obj removeFromContainer_Obj ViewController_def registry_b_def
        view_a_def view_b_def model_m_def)

text \<open>
  C9, amended. For every view whose handle was never handed to \<open>storeView\<close> or
  \<open>createView\<close> in the history of the registry, \<open>removeFromContainer(view)\<close> does not
  raise and completes normally; it recomputes the count and leaves \<open>u_views\<close> and the
  custom index unchanged, and it leaves the model index unchanged except that the entry
  of the identity of the view's bound model, if the view has one, is deleted.
\<close>

theorem removeFromContainer_never_registered:
  assumes "run ViewController xs = Inr s" and "cid v \<notin> set (concat (map stored xs))"
  shows "\<exists>s'. removeFromContainer s (Obj v) = Inr s'
            \<and> length' s' = Some (length (u_views s))
            \<and> u_views s' = u_views s
            \<and> u_indexByCustom s' = u_indexByCustom s
            \<and> u_indexByModel s' =
                (case model v of
                   None \<Rightarrow> u_indexByModel s
                 | Some m \<Rightarrow> AList.delete (mcid m) (u_indexByModel s))"
proof -
  from run_handles[OF assms(1)] assms(2)
  have k: "cid v \<notin> fst ` set (u_views s)" and t: "cid v \<notin> snd ` set (u_indexByCustom s)"
    by (auto simp: ViewController_def)
  from t have "find (\<lambda>kv. snd kv = cid v) (u_indexByCustom s) = None"
    by (force simp: find_None_iff)
  with k show ?thesis
    by (simp add: removeFromContainer_Obj)
qed

theorem removeFromContainer_never_registered_witness:
  "run ViewController [StoreView (Obj view_b) (Obj ''beta''), StoreView (Obj view_p) Undefined :: unit op]
     = Inr registry_bp
   \<and> cid view_a \<notin> set (concat (map stored
         [StoreView (Obj view_b) (Obj ''beta''), StoreView (Obj view_p) Undefined :: unit op]))
   \<and> removeFromContainer registry_bp (Obj view_a)
       = Inr \<lparr>u_views = [(''view2'', view_b), (''view4'', view_p)],
              u_indexByModel = [(''c2'', ''view4'')],
              u_indexByCustom = [(''beta'', ''view2'')], length' = Some 2\<rparr>"
proof -
  have r: "run ViewController [StoreView (Obj view_b) (Obj ''beta''), StoreView (Obj view_p) Undefined :: unit op]
     = Inr registry_bp"
    by (simp add: storeView_Obj ViewController_def registry_bp_def view_b_def view_p_def
          model_m_def plain_m_def)
  have n: "cid view_a \<notin> set (concat (map stored
         [StoreView (Obj view_b) (Obj ''beta''), StoreView (Obj view_p) Undefined :: unit op]))"
    by (simp add: view_a_def view_b_def view_p_def)
  from removeFromContainer_never_registered[OF r n] obtain s' where
    s': "removeFromContainer registry_bp (Obj view_a) = Inr s'"
    and g: "length' s' = Some (length (u_views registry_bp))"
      "u_views s' = u_views registry_bp"
      "u_indexByCustom s' = u_indexByCustom registry_bp"
      "u_indexByModel s' =
         (case model view_a of
            None \<Rightarrow> u_indexByModel registry_bp
          | Some m \<Rightarrow> AList.delete (mcid m) (u_indexByModel registry_bp))"
    by blast
  from g have "s' = \<lparr>u_views = [(''view2'', view_b), (''view4'', view_p)],
              u_indexByModel = [(''c2'', ''view4'')],
              u_indexByCustom = [(''beta'', ''view2'')], length' = Some 2\<rparr>"
    by (cases s') (simp add: registry_bp_def view_a_def model_m_def)
  with s' have e: "removeFromContainer registry_bp (Obj view_a)
       = Inr \<lparr>u_views = [(''view2'', view_b), (''view4'', view_p)],
              u_indexByModel = [(''c2'', ''view4'')],
              u_indexByCustom = [(''beta'', ''view2'')], length' = Some 2\<rparr>"
    by simp
  show ?thesis
    by (rule conjI[OF r conjI[OF n e]])
qed

subsection \<open>C10: the model index entry is deleted whatever it targets\<close>

text \<open>
  C10. For every view \<open>v1\<close> bound to a model, \<open>removeFromContainer(v1)\<close> leaves no entry
  for the identity of that model in the model index, in every registry, whatever the
  entry targeted. In particular, when \<open>v1\<close> and then another view \<open>v2\<close> bound to the same
  model identity are stored, the index targets \<open>v2\<close>; removing \<open>v1\<close> deletes that entry,
  so the model identity resolves to nothing although \<open>v2\<close> is still registered under its
  handle.
\<close>

theorem removeFromContainer_drops_model_index:
  "model v1 = Some m1 \<Longrightarrow> model v2 = Some m2 \<Longrightarrow> mcid m2 = mcid m1 \<Longrightarrow> cid v2 \<noteq> cid v1 \<Longrightarrow>
     (\<exists>s'. removeFromContainer s (Obj v1) = Inr s'
           \<and> get_prop (u_indexByModel s') (mcid m1) = Undefined)
   \<and> (\<exists>sa sb sc.
          storeView s (Obj v1) k1 = Inr sa
        \<and> storeView sa (Obj v2) k2 = Inr sb
        \<and> get_prop (u_indexByModel sb) (mcid m1) = Obj (cid v2)
        \<and> removeFromContainer sb (Obj v1) = Inr sc
        \<and> get_prop (u_indexByModel sc) (mcid m1) = Undefined
        \<and> u_getByCid sc (Obj (cid v2)) = Obj v2)"
  by (simp add: storeView_Obj removeFromContainer_Obj get_prop_def u_getByCid_def
        AList.update_conv' AList.delete_conv')

theorem removeFromContainer_drops_model_index_witness:
  "model view_a = Some model_m \<and> model view_b = Some model_m \<and> cid view_b \<noteq> cid view_a
   \<and> storeView ViewController (Obj view_a) Undefined = Inr registry_a
   \<and> storeView registry_a (Obj view_b) Undefined = Inr registry_ab
   \<and> get_prop (u_indexByModel registry_ab) (mcid model_m) = Obj (cid view_b)
   \<and> removeFromContainer registry_ab (Obj view_a) = Inr registry_b
   \<and> get_prop (u_indexByModel registry_b) (mcid model_m) = Undefined
   \<and> u_getByCid registry_b (Obj (cid view_b)) = Obj view_b"
proof -
  have h: "model view_a = Some model_m" "model view_b = Some model_m" "mcid model_m = mcid model_m"
    "cid view_b \<noteq> cid view_a"
    by (simp_all add: view_a_def view_b_def)
  have a: "storeView ViewController (Obj view_a) Undefined = Inr registry_a"
    by (simp add: storeView_Obj ViewController_def registry_a_def view_a_def model_m_def)
  have b: "storeView registry_a (Obj view_b) Undefined = Inr registry_ab"
    by (simp add: storeView_Obj registry_a_def registry_ab_def view_a_def view_b_def model_m_def)
  have c: "removeFromContainer registry_ab (Obj view_a) = Inr registry_b"
    by (simp add: removeFromContainer_Obj registry_ab_def registry_b_def view_a_def view_b_def
          model_m_def)
  from removeFromContainer_drops_model_index[OF h, of ViewController Undefined Undefined] a b c
  have "get_prop (u_indexByModel registry_ab) (mcid model_m) = Obj (cid view_b)
      \<and> get_prop (u_indexByModel registry_b) (mcid model_m) = Undefined
      \<and> u_getByCid registry_b (Obj (cid view_b)) = Obj view_b"
    by auto
  with h a b c show ?thesis by blast
qed

end
